theory Spec2Isabelle
  imports Complex_Main "HOL-Library.Sublist"
begin

section \<open>Utility functions of \<open>curvlinops/utils.py\<close>\<close>

subsection \<open>Errors and integer formatting\<close>

text \<open>
  The exceptions raised by the modelled code.  \<open>ValueError\<close> carries its message.
  \<open>RuntimeError\<close> and \<open>IndexError\<close> are raised by the tensor library (shapes that
  cannot be broadcast, a mask that does not fit the indexed tensor).
  \<open>ConfigurationError\<close> and \<open>ShapeMismatchError\<close> are the names the specification
  gives to the failures of the operator.
\<close>

datatype error =
    ValueError string
  | RuntimeError
  | IndexError
  | ConfigurationError
  | ShapeMismatchError

text \<open>
  Python renders an \<open>int\<close> inside an f-string in decimal, with a leading minus sign
  for negative values.  Python's integers are unbounded, so they are \<open>int\<close> here.
  The interpreter's limit on the number of digits of such a rendering is not modelled.
\<close>

definition digit_char :: "nat \<Rightarrow> char" where
  "digit_char d = char_of (48 + d)"

function str_nat :: "nat \<Rightarrow> string" where
  "str_nat n = (if n < 10 then [digit_char n] else str_nat (n div 10) @ [digit_char (n mod 10)])"
  by pat_completeness auto
termination
  by (relation "measure (\<lambda>n. n)") auto

declare str_nat.simps [simp del]

definition str_int :: "int \<Rightarrow> string" where
  "str_int i = (if i < 0 then CHR ''-'' # str_nat (nat (- i)) else str_nat (nat i))"

subsection \<open>\<open>split_list\<close>\<close>

text \<open>
  \<open>numpy.cumsum\<close> of a list of integers: the running sums, one per entry.  The
  accumulator is an unbounded integer; numpy's 64-bit accumulator agrees with it as long
  as every entry and every partial sum fits 64 bits.  That is so whenever the sizes are
  non-negative and sum to the length of a list, which is below \<open>2^63\<close> in Python.
\<close>

fun cumsum_from :: "int \<Rightarrow> int list \<Rightarrow> int list" where
  "cumsum_from acc [] = []"
| "cumsum_from acc (s # ss) = (acc + s) # cumsum_from (acc + s) ss"

definition cumsum :: "int list \<Rightarrow> int list" where
  "cumsum xs = cumsum_from 0 xs"

text \<open>
  Python's slice \<open>x[lo:hi]\<close> for integer bounds: a negative bound counts from the end
  of the list, and every bound is then clipped to \<open>0 .. len(x)\<close>.  The slice is empty
  when the adjusted lower bound is not below the adjusted upper bound.
\<close>

definition adjust_index :: "nat \<Rightarrow> int \<Rightarrow> nat" where
  "adjust_index n i =
     (if i < 0 then (if i + int n < 0 then 0 else nat (i + int n))
      else if i > int n then n else nat i)"

definition py_slice :: "'a list \<Rightarrow> int \<Rightarrow> int \<Rightarrow> 'a list" where
  "py_slice x lo hi =
     (let a = adjust_index (length x) lo; b = adjust_index (length x) hi
      in if a < b then take (b - a) (drop a x) else [])"

text \<open>
  \<open>split_list\<close> raises \<open>ValueError\<close> when the sizes do not sum to the length of the
  list.  Otherwise \<open>boundaries = cumsum([0] + sizes)\<close> has \<open>len(sizes) + 1\<close> entries, so
  both reads \<open>boundaries[i]\<close> and \<open>boundaries[i + 1]\<close> are in range for every
  \<open>i\<close> in \<open>range(len(sizes))\<close>.
\<close>

definition split_list :: "'a list \<Rightarrow> int list \<Rightarrow> error + 'a list list" where
  "split_list x sizes =
     (if int (length x) \<noteq> sum_list sizes then
        Inl (ValueError
          (''List to be split has length '' @ str_int (int (length x))
           @ '', but requested sub-list with a total''
           @ '' of '' @ str_int (sum_list sizes) @ '' entries.''))
      else
        (let boundaries = cumsum (0 # sizes)
         in Inr (map (\<lambda>i. py_slice x (boundaries ! i) (boundaries ! (i + 1)))
                   [0..<length sizes])))"

subsection \<open>Reading a decimal rendering back\<close>

text \<open>
  The inverse of \<open>str_int\<close>, used to state that the rendering of a number in an
  error message determines the number.
\<close>

definition digit_val :: "char \<Rightarrow> nat" where
  "digit_val c = of_char c - 48"

definition val_nat :: "string \<Rightarrow> nat" where
  "val_nat s = foldl (\<lambda>acc c. 10 * acc + digit_val c) 0 s"

definition val_int :: "string \<Rightarrow> int" where
  "val_int s = (case s of [] \<Rightarrow> 0
                | c # r \<Rightarrow> if c = CHR ''-'' then - int (val_nat r) else int (val_nat s))"


subsection \<open>Offsets of the blocks\<close>

text \<open>
  The position in the list at which block \<open>i\<close> starts: the sum of the sizes before it.
\<close>

definition block_offset :: "int list \<Rightarrow> nat \<Rightarrow> nat" where
  "block_offset sizes i = nat (sum_list (take i sizes))"

subsection \<open>Tensors\<close>

text \<open>
  \<open>allclose_report\<close> is written against the tensor library.  A tensor is its shape
  and its entries in row-major order; it is well formed when it has as many entries as
  its shape asks for.  The entries are of any type: the arithmetic on them (closeness
  under the tolerances, division) is a parameter of the model, since it is floating-point
  arithmetic of the library.
\<close>

record 'a tensor =
  shape :: "nat list"
  entries :: "'a list"

definition wf_tensor :: "'a tensor \<Rightarrow> bool" where
  "wf_tensor t = (length (entries t) = prod_list (shape t))"

text \<open>
  All multi-indices of a shape in row-major order, and the position of a multi-index
  among the entries.
\<close>

fun indices :: "nat list \<Rightarrow> nat list list" where
  "indices [] = [[]]"
| "indices (d # ds) = concat (map (\<lambda>i. map ((#) i) (indices ds)) [0..<d])"

fun ravel :: "nat list \<Rightarrow> nat list \<Rightarrow> nat" where
  "ravel (d # ds) (i # is) = i * prod_list ds + ravel ds is"
| "ravel _ _ = 0"

text \<open>
  Broadcasting.  Two shapes are aligned at their last axis; two aligned sizes must be
  equal or one of them must be 1, and a missing axis counts as 1.  \<open>broadcast_rev\<close>
  works on the reversed shapes.  An entry of a tensor at a multi-index of the broadcast
  shape is read by dropping the leading axes the tensor does not have and reading
  position 0 along every axis of size 1.
\<close>

fun broadcast_rev :: "nat list \<Rightarrow> nat list \<Rightarrow> nat list option" where
  "broadcast_rev [] bs = Some bs"
| "broadcast_rev as [] = Some as"
| "broadcast_rev (a # as) (b # bs) =
     (if a = b \<or> b = 1 then map_option ((#) a) (broadcast_rev as bs)
      else if a = 1 then map_option ((#) b) (broadcast_rev as bs)
      else None)"

definition broadcast_shapes :: "nat list \<Rightarrow> nat list \<Rightarrow> nat list option" where
  "broadcast_shapes s1 s2 = map_option rev (broadcast_rev (rev s1) (rev s2))"

definition broadcast_index :: "nat list \<Rightarrow> nat list \<Rightarrow> nat list" where
  "broadcast_index s idx =
     map (\<lambda>(d, i). if d = 1 then 0 else i) (zip s (drop (length idx - length s) idx))"

definition broadcast_get :: "'a tensor \<Rightarrow> nat list \<Rightarrow> 'a" where
  "broadcast_get t idx = entries t ! ravel (shape t) (broadcast_index (shape t) idx)"

text \<open>
  \<open>tensor1.isclose(tensor2)\<close> compares the two tensors entry by entry after
  broadcasting and raises \<open>RuntimeError\<close> when the shapes cannot be broadcast;
  \<open>cl\<close> is the closeness of two entries under the given tolerances.
  \<open>tensor1.allclose(tensor2)\<close> is \<open>isclose\<close> followed by \<open>all\<close>.
  The library also rejects two tensors of different element types and a negative
  tolerance; the model has one element type and takes tolerances the library accepts.
\<close>

definition isclose :: "('a \<Rightarrow> 'a \<Rightarrow> bool) \<Rightarrow> 'a tensor \<Rightarrow> 'a tensor \<Rightarrow> error + bool tensor" where
  "isclose cl t1 t2 =
     (case broadcast_shapes (shape t1) (shape t2) of
        None \<Rightarrow> Inl RuntimeError
      | Some bs \<Rightarrow>
          Inr \<lparr>shape = bs,
               entries = map (\<lambda>idx. cl (broadcast_get t1 idx) (broadcast_get t2 idx)) (indices bs)\<rparr>)"

definition allclose :: "('a \<Rightarrow> 'a \<Rightarrow> bool) \<Rightarrow> 'a tensor \<Rightarrow> 'a tensor \<Rightarrow> error + bool" where
  "allclose cl t1 t2 =
     (case isclose cl t1 t2 of Inl e \<Rightarrow> Inl e | Inr m \<Rightarrow> Inr (list_all (\<lambda>b. b) (entries m)))"

text \<open>
  \<open>logical_not_\<close> negates a mask; \<open>argwhere\<close> lists the multi-indices at which a
  mask holds, in row-major order.  Indexing a tensor with a mask, \<open>t[m]\<close>, gives the
  entries at which the mask holds, in row-major order.  The mask here has the broadcast
  shape, so it has at least as many axes as the tensor, and the library accepts it only
  when its shape is the tensor's shape; otherwise it raises \<open>IndexError\<close>.
\<close>

definition logical_not :: "bool tensor \<Rightarrow> bool tensor" where
  "logical_not m = m\<lparr>entries := map Not (entries m)\<rparr>"

definition argwhere :: "bool tensor \<Rightarrow> nat list list" where
  "argwhere m = map fst (filter snd (zip (indices (shape m)) (entries m)))"

definition mask_select :: "'a tensor \<Rightarrow> bool tensor \<Rightarrow> error + 'a list" where
  "mask_select t m =
     (if shape m \<noteq> shape t then Inl IndexError
      else Inr (map fst (filter snd (zip (entries t) (entries m)))))"

subsection \<open>\<open>allclose_report\<close>\<close>

text \<open>
  One printed line: the index, the two entries and their ratio.  The rendering of the
  four values into text (\<open>.5e\<close>) is not modelled.
\<close>

record 'a report =
  index :: "nat list"
  entry1 :: 'a
  entry2 :: 'a
  ratio :: 'a

text \<open>
  \<open>allclose_report\<close> returns the printed lines together with the returned flag.
  The three arguments of \<open>zip\<close> are evaluated before the loop starts, so an
  \<open>IndexError\<close> of \<open>tensor1[nonclose_idx]\<close> or \<open>tensor2[nonclose_idx]\<close> is raised
  before anything is printed.  \<open>close_entry rtol atol\<close> is the closeness of two
  entries and \<open>quot\<close> their division \<open>t1 / t2\<close>.
\<close>

definition allclose_report ::
  "('r \<Rightarrow> 'r \<Rightarrow> 'a \<Rightarrow> 'a \<Rightarrow> bool) \<Rightarrow> ('a \<Rightarrow> 'a \<Rightarrow> 'a) \<Rightarrow>
   'a tensor \<Rightarrow> 'a tensor \<Rightarrow> 'r \<Rightarrow> 'r \<Rightarrow> error + ('a report list \<times> bool)" where
  "allclose_report close_entry quot tensor1 tensor2 rtol atol =
     (case allclose (close_entry rtol atol) tensor1 tensor2 of
        Inl e \<Rightarrow> Inl e
      | Inr close \<Rightarrow>
          if \<not> close then
            (case isclose (close_entry rtol atol) tensor1 tensor2 of
               Inl e \<Rightarrow> Inl e
             | Inr m \<Rightarrow>
                 (let nonclose_idx = logical_not m in
                  case mask_select tensor1 nonclose_idx of
                    Inl e \<Rightarrow> Inl e
                  | Inr v1 \<Rightarrow>
                      (case mask_select tensor2 nonclose_idx of
                         Inl e \<Rightarrow> Inl e
                       | Inr v2 \<Rightarrow>
                           Inr (map (\<lambda>(idx, t1, t2).
                                       \<lparr>index = idx, entry1 = t1, entry2 = t2, ratio = quot t1 t2\<rparr>)
                                  (zip (argwhere nonclose_idx) (zip v1 v2)),
                                close))))
          else Inr ([], close))"

text \<open>
  The library's closeness of two entries, \<open>|a - b| \<le> atol + rtol * |b|\<close>, in exact
  arithmetic.  It instantiates \<open>close_entry\<close> at concrete inputs whose entries and
  tolerances are small integers, where floating-point arithmetic is exact.
\<close>

definition close_exact :: "real \<Rightarrow> real \<Rightarrow> real \<Rightarrow> real \<Rightarrow> bool" where
  "close_exact rtol atol a b = (\<bar>a - b\<bar> \<le> atol + rtol * \<bar>b\<bar>)"

section \<open>The implicit linear operator\<close>

text \<open>
  Modelled from the spec: the operator class (\<open>HessianLinearOperator\<close>), its batch-size
  resolver and its block handling are not among the source files; only their tests are.
  The definitions of this section follow sections 3, 4.1 to 4.3 and 7 of the
  specification.  The specification's BlockPartitioner is \<open>split_list\<close> of the source
  (the test builds the reference blocks with it).

  A batch is an input and a target.  An input is array-like, with a leading dimension,
  or mapping-like (a dictionary).  Parameters are tensors; a parameter contributes as
  many coordinates to the operator's vectors as it has entries.  The entries of vectors
  are of any type with an addition and a zero: no law of arithmetic is used, so that the
  model does not depend on how floating-point addition rounds.
\<close>

datatype 'd batch_input = ArrayLike nat | MappingLike 'd

type_synonym ('d, 'y) batch = "'d batch_input \<times> 'y"

text \<open>
  Modelled from the spec: the default resolver (section 4.1) infers the size of a batch
  from the leading dimension of an array-like input and fails with
  \<open>ConfigurationError\<close> on a mapping-like input.  A resolver supplied by the caller is
  a pure function of one batch.
\<close>

fun default_resolver :: "('d, 'y) batch \<Rightarrow> error + nat" where
  "default_resolver (ArrayLike n, y) = Inr n"
| "default_resolver (MappingLike d, y) = Inl ConfigurationError"

definition resolver_of :: "(('d, 'y) batch \<Rightarrow> nat) option \<Rightarrow> ('d, 'y) batch \<Rightarrow> error + nat" where
  "resolver_of batch_size_fn =
     (case batch_size_fn of None \<Rightarrow> default_resolver | Some f \<Rightarrow> (\<lambda>b. Inr (f b)))"

text \<open>
  Modelled from the spec: resolving the size of every batch of the data stream, in
  stream order; the first failure is the failure of the whole pass.
\<close>

fun resolve_all ::
  "(('d, 'y) batch \<Rightarrow> error + nat) \<Rightarrow> ('d, 'y) batch list \<Rightarrow> error + nat list" where
  "resolve_all r [] = Inr []"
| "resolve_all r (b # bs) =
     (case r b of
        Inl e \<Rightarrow> Inl e
      | Inr n \<Rightarrow> (case resolve_all r bs of Inl e \<Rightarrow> Inl e | Inr ns \<Rightarrow> Inr (n # ns)))"

text \<open>
  Modelled from the spec: the CurvatureKernel is an external collaborator.  With the
  model and the loss fixed, it maps a parameter subset, a batch and a vector to a vector.
\<close>

type_synonym ('a, 'd, 'y) curvature_kernel = "'a tensor list \<Rightarrow> ('d, 'y) batch \<Rightarrow> 'a list \<Rightarrow> 'a list"

record ('a, 'd, 'y) operator =
  op_kernel :: "('a, 'd, 'y) curvature_kernel"
  op_params :: "'a tensor list"
  op_data :: "('d, 'y) batch list"
  op_batch_sizes :: "nat list"
  op_blocks :: "int list option"

text \<open>
  Modelled from the spec: the dimension of the vectors an operator on the parameters
  \<open>ps\<close> multiplies is the sum of the flattened sizes of the parameters (section 3,
  operator shape).
\<close>

definition flat_dim :: "'a tensor list \<Rightarrow> nat" where
  "flat_dim ps = sum_list (map (\<lambda>p. prod_list (shape p)) ps)"

text \<open>
  Modelled from the spec: construction (section 4.3) validates the block sizes against
  the parameter sequence with the BlockPartitioner and resolves the size of every batch;
  with the resolver omitted this fails on a mapping-like input.  The same block sizes
  serve as input and as output blocks, as in the test of the blocked operator.
\<close>

definition construct ::
  "('a, 'd, 'y) curvature_kernel \<Rightarrow> 'a tensor list \<Rightarrow> ('d, 'y) batch list \<Rightarrow>
   (('d, 'y) batch \<Rightarrow> nat) option \<Rightarrow> int list option \<Rightarrow> error + ('a, 'd, 'y) operator" where
  "construct kern params data batch_size_fn blocks =
     (case (case blocks of None \<Rightarrow> Inr [params] | Some sizes \<Rightarrow> split_list params sizes) of
        Inl e \<Rightarrow> Inl e
      | Inr _ \<Rightarrow>
          (case resolve_all (resolver_of batch_size_fn) data of
             Inl e \<Rightarrow> Inl e
           | Inr ns \<Rightarrow>
               Inr \<lparr>op_kernel = kern, op_params = params, op_data = data,
                    op_batch_sizes = ns, op_blocks = blocks\<rparr>))"

text \<open>
  Modelled from the spec: the contributions of the batches are summed, in stream order,
  into a result vector that starts at zero (section 4.3, unblocked \<open>matvec\<close>).
\<close>

definition accumulate ::
  "('a :: {zero, plus}, 'd, 'y) curvature_kernel \<Rightarrow> 'a tensor list \<Rightarrow> ('d, 'y) batch list \<Rightarrow> 'a list \<Rightarrow> 'a list" where
  "accumulate kern ps data v =
     foldl (\<lambda>acc b. map2 (+) acc (kern ps b v)) (replicate (length v) 0) data"

text \<open>
  Modelled from the spec: \<open>matvec\<close> (section 4.3) rejects a vector whose length is not
  the input dimension (section 7, ShapeMismatchError).  Unblocked, it accumulates the
  kernel on the full parameters.  Blocked, it splits the parameters into blocks,
  decomposes the vector into one sub-vector per block, accumulates for block \<open>i\<close> the
  kernel on the parameters and the sub-vector of block \<open>i\<close> only, and concatenates the
  results in block order.
\<close>

definition matvec :: "('a :: {zero, plus}, 'd, 'y) operator \<Rightarrow> 'a list \<Rightarrow> error + 'a list" where
  "matvec op v =
     (if length v \<noteq> flat_dim (op_params op) then Inl ShapeMismatchError
      else
        (case op_blocks op of
           None \<Rightarrow> Inr (accumulate (op_kernel op) (op_params op) (op_data op) v)
         | Some sizes \<Rightarrow>
             (case split_list (op_params op) sizes of
                Inl e \<Rightarrow> Inl e
              | Inr pblocks \<Rightarrow>
                  (case split_list v (map (\<lambda>ps. int (flat_dim ps)) pblocks) of
                     Inl e \<Rightarrow> Inl e
                   | Inr vblocks \<Rightarrow>
                       Inr (concat (map (\<lambda>(ps, vi). accumulate (op_kernel op) ps (op_data op) vi)
                                      (zip pblocks vblocks)))))))"

text \<open>
  Modelled from the spec: \<open>matmat\<close> is \<open>matvec\<close> on every column of the matrix
  (section 4.3); a matrix is the list of its columns.
\<close>

fun matmat :: "('a :: {zero, plus}, 'd, 'y) operator \<Rightarrow> 'a list list \<Rightarrow> error + 'a list list" where
  "matmat op [] = Inr []"
| "matmat op (v # vs) =
     (case matvec op v of
        Inl e \<Rightarrow> Inl e
      | Inr r \<Rightarrow> (case matmat op vs of Inl e \<Rightarrow> Inl e | Inr rs \<Rightarrow> Inr (r # rs)))"

text \<open>
  Modelled from the spec: the conditions under which the specification describes the
  operator.  An input is mapping-like when it is a dictionary.  Block sizes are
  admissible for a parameter sequence when there are none (one block covering
  everything) or when they sum to the number of parameters and none is negative
  (section 3, block partition, which asks for positive sizes).
\<close>

definition mapping_like :: "'d batch_input \<Rightarrow> bool" where
  "mapping_like x = (case x of ArrayLike n \<Rightarrow> False | MappingLike d \<Rightarrow> True)"

definition blocks_ok :: "'p list \<Rightarrow> int list option \<Rightarrow> bool" where
  "blocks_ok ps blocks =
     (case blocks of None \<Rightarrow> True
      | Some sizes \<Rightarrow> list_all (\<lambda>s. 0 \<le> s) sizes \<and> sum_list sizes = int (length ps))"

text \<open>
  A small operator for the concrete instances below: two parameters with one and two
  entries, and a kernel that scales the vector by the number of parameters in the subset.
\<close>

definition example_params :: "int tensor list" where
  "example_params = [\<lparr>shape = [1], entries = [5]\<rparr>, \<lparr>shape = [2], entries = [6, 7]\<rparr>]"

definition example_kernel :: "(int, string, unit) curvature_kernel" where
  "example_kernel ps b v = map (\<lambda>x. x * int (length ps)) v"

section \<open>Properties of the decimal rendering\<close>

lemma digit_val_digit_char: "d < 10 \<Longrightarrow> digit_val (digit_char d) = d"
  by (simp add: digit_val_def digit_char_def)

lemma digit_char_not_minus: "d < 10 \<Longrightarrow> digit_char d \<noteq> CHR ''-''"
proof
  assume d: "d < 10" and "digit_char d = CHR ''-''"
  then have "of_char (digit_char d) = (of_char (CHR ''-'') :: nat)" by simp
  with d show False by (simp add: digit_char_def)
qed

lemma val_nat_snoc: "val_nat (s @ [c]) = 10 * val_nat s + digit_val c"
  by (simp add: val_nat_def)

lemma val_str_nat: "val_nat (str_nat n) = n"
proof (induction n rule: str_nat.induct)
  case (1 n)
  show ?case
  proof (cases "n < 10")
    case True
    then show ?thesis
      by (subst str_nat.simps) (simp add: val_nat_def digit_val_digit_char)
  next
    case False
    with 1 have "val_nat (str_nat (n div 10)) = n div 10" by simp
    with False show ?thesis
      by (subst str_nat.simps) (simp add: val_nat_snoc digit_val_digit_char)
  qed
qed

lemma str_nat_first: "\<exists>c r. str_nat n = c # r \<and> c \<noteq> CHR ''-''"
proof (induction n rule: str_nat.induct)
  case (1 n)
  show ?case
  proof (cases "n < 10")
    case True
    then show ?thesis
      by (subst str_nat.simps) (simp add: digit_char_not_minus)
  next
    case False
    with 1 obtain c r where "str_nat (n div 10) = c # r" "c \<noteq> CHR ''-''" by auto
    with False show ?thesis
      by (subst str_nat.simps) simp
  qed
qed

lemma val_str_int: "val_int (str_int i) = i"
proof (cases "i < 0")
  case True
  then show ?thesis by (simp add: str_int_def val_int_def val_str_nat)
next
  case False
  obtain c r where cr: "str_nat (nat i) = c # r" "c \<noteq> CHR ''-''"
    using str_nat_first by blast
  have "val_nat (c # r) = nat i" using val_str_nat [of "nat i"] cr by simp
  with False cr show ?thesis by (simp add: str_int_def val_int_def)
qed

section \<open>Properties of \<open>split_list\<close>\<close>

lemma length_cumsum_from: "length (cumsum_from acc ss) = length ss"
  by (induction ss arbitrary: acc) simp_all

lemma cumsum_from_nth:
  "i < length ss \<Longrightarrow> cumsum_from acc ss ! i = acc + sum_list (take (Suc i) ss)"
proof (induction ss arbitrary: acc i)
  case Nil
  then show ?case by simp
next
  case (Cons s ss)
  show ?case
  proof (cases i)
    case 0
    then show ?thesis by simp
  next
    case (Suc j)
    with Cons.prems have "j < length ss" by simp
    from Cons.IH [OF this, of "acc + s"] Suc show ?thesis by simp
  qed
qed

lemma boundaries_nth:
  "i \<le> length sizes \<Longrightarrow> cumsum (0 # sizes) ! i = sum_list (take i sizes)"
proof (cases i)
  case 0
  then show ?thesis by (simp add: cumsum_def)
next
  case (Suc j)
  assume "i \<le> length sizes"
  with Suc have "j < length sizes" by simp
  then show ?thesis using Suc by (simp add: cumsum_def cumsum_from_nth)
qed

lemma sum_list_take_nonneg:
  "\<forall>s \<in> set sizes. 0 \<le> s \<Longrightarrow> 0 \<le> sum_list (take i (sizes :: int list))"
  by (rule sum_list_nonneg) (auto dest: in_set_takeD)

lemma sum_list_take_le:
  assumes "\<forall>s \<in> set sizes. 0 \<le> s"
  shows "sum_list (take i sizes) \<le> sum_list (sizes :: int list)"
proof -
  have "sum_list sizes = sum_list (take i sizes) + sum_list (drop i sizes)"
    by (metis append_take_drop_id sum_list_append)
  moreover have "0 \<le> sum_list (drop i sizes)"
    using assms by (intro sum_list_nonneg) (auto dest: in_set_dropD)
  ultimately show ?thesis by simp
qed

lemma sum_list_take_Suc:
  "i < length sizes \<Longrightarrow> sum_list (take (Suc i) sizes) = sum_list (take i sizes) + (sizes ! i :: int)"
  by (simp add: take_Suc_conv_app_nth)

lemma py_slice_in_range:
  assumes "0 \<le> lo" "lo \<le> hi" "hi \<le> int (length x)"
  shows "py_slice x lo hi = take (nat (hi - lo)) (drop (nat lo) x)"
proof -
  have a: "adjust_index (length x) lo = nat lo" using assms by (simp add: adjust_index_def)
  have b: "adjust_index (length x) hi = nat hi" using assms by (simp add: adjust_index_def)
  have c: "nat hi - nat lo = nat (hi - lo)" using assms by simp
  show ?thesis
  proof (cases "lo < hi")
    case True
    then have "nat lo < nat hi" using assms by simp
    then show ?thesis by (simp add: py_slice_def a b c)
  next
    case False
    then have "hi = lo" using assms by simp
    then show ?thesis by (simp add: py_slice_def a b)
  qed
qed

lemma split_list_ok:
  assumes nn: "\<forall>s \<in> set sizes. 0 \<le> s" and len: "sum_list sizes = int (length x)"
  shows "split_list x sizes =
     Inr (map (\<lambda>i. take (nat (sizes ! i)) (drop (block_offset sizes i) x)) [0..<length sizes])"
proof -
  have "py_slice x (cumsum (0 # sizes) ! i) (cumsum (0 # sizes) ! (i + 1))
        = take (nat (sizes ! i)) (drop (block_offset sizes i) x)"
    if "i < length sizes" for i
  proof -
    have lo: "cumsum (0 # sizes) ! i = sum_list (take i sizes)"
      using that by (simp add: boundaries_nth)
    have hi: "cumsum (0 # sizes) ! (i + 1) = sum_list (take i sizes) + sizes ! i"
      using that by (simp add: boundaries_nth sum_list_take_Suc del: cumsum_from.simps)
    have "0 \<le> sizes ! i" using nn that by simp
    moreover have "0 \<le> sum_list (take i sizes)" using nn by (rule sum_list_take_nonneg)
    moreover have "sum_list (take i sizes) + sizes ! i \<le> int (length x)"
      using sum_list_take_le [OF nn, of "Suc i"] that len by (simp add: sum_list_take_Suc)
    ultimately show ?thesis
      unfolding lo hi block_offset_def by (subst py_slice_in_range) simp_all
  qed
  then show ?thesis using len by (simp add: split_list_def Let_def)
qed

lemma concat_blocks:
  assumes nn: "\<forall>s \<in> set sizes. 0 \<le> s"
  shows "k \<le> length sizes \<Longrightarrow>
     concat (map (\<lambda>i. take (nat (sizes ! i)) (drop (block_offset sizes i) x)) [0..<k])
       = take (block_offset sizes k) x"
proof (induction k)
  case 0
  then show ?case by (simp add: block_offset_def)
next
  case (Suc k)
  then have k: "k < length sizes" by simp
  have "0 \<le> sizes ! k" using nn k by simp
  moreover have "0 \<le> sum_list (take k sizes)" using nn by (rule sum_list_take_nonneg)
  ultimately have off: "block_offset sizes (Suc k) = block_offset sizes k + nat (sizes ! k)"
    using k by (simp add: block_offset_def sum_list_take_Suc nat_add_distrib)
  show ?case using Suc.IH k by (simp add: off take_add)
qed

lemma split_list_two:
  assumes "0 \<le> a" "0 \<le> b" "a + b = int (length x)"
  shows "split_list x [a, b] = Inr [take (nat a) x, drop (nat a) x]"
proof -
  have nn: "\<forall>s \<in> set [a, b]. 0 \<le> s" using assms by simp
  have len: "sum_list [a, b] = int (length x)" using assms by simp
  have "nat b = length x - nat a" using assms by linarith
  then have "take (nat b) (drop (nat a) x) = drop (nat a) x" by simp
  then show ?thesis
    unfolding split_list_ok [OF nn len]
    by (simp add: block_offset_def upt_rec)
qed

lemma split_list_succeeds:
  "sum_list sizes = int (length x) \<Longrightarrow> \<exists>r. split_list x sizes = Inr r"
  by (simp add: split_list_def Let_def)

section \<open>Claims about \<open>split_list\<close>\<close>

text \<open>
  Claim C2.  Whenever the sizes do not sum to the length of the list, \<open>split_list\<close>
  raises \<open>ValueError\<close>.  Its message is the fixed text of the source with the decimal
  rendering of the list's length and of the requested total in it; both renderings occur
  in the message and each reads back to the number it renders.
\<close>

theorem split_list_size_mismatch:
  assumes "int (length x) \<noteq> sum_list sizes"
  shows "\<exists>msg. split_list x sizes = Inl (ValueError msg)
           \<and> msg = ''List to be split has length '' @ str_int (int (length x))
                   @ '', but requested sub-list with a total of ''
                   @ str_int (sum_list sizes) @ '' entries.''
           \<and> sublist (str_int (int (length x))) msg
           \<and> sublist (str_int (sum_list sizes)) msg
           \<and> val_int (str_int (int (length x))) = int (length x)
           \<and> val_int (str_int (sum_list sizes)) = sum_list sizes"
proof -
  let ?a = "str_int (int (length x))" and ?b = "str_int (sum_list sizes)"
  let ?msg = "''List to be split has length '' @ ?a
                @ '', but requested sub-list with a total of '' @ ?b @ '' entries.''"
  have 1: "split_list x sizes = Inl (ValueError ?msg)"
    using assms by (simp add: split_list_def)
  have 2: "sublist ?a ?msg"
    unfolding sublist_def by blast
  have "?msg = (''List to be split has length '' @ ?a
                @ '', but requested sub-list with a total of '') @ ?b @ '' entries.''"
    by simp
  then have 3: "sublist ?b ?msg"
    unfolding sublist_def by blast
  show ?thesis using 1 2 3 by (simp add: val_str_int)
qed

theorem split_list_size_mismatch_witness:
  "int (length ''ab'') \<noteq> sum_list [1]
   \<and> split_list ''ab'' [1] = Inl (ValueError
        ''List to be split has length 2, but requested sub-list with a total of 1 entries.'')"
proof -
  have h: "int (length ''ab'') \<noteq> sum_list [1]" by simp
  have a: "str_int 2 = ''2''" by code_simp
  have b: "str_int 1 = ''1''" by code_simp
  from split_list_size_mismatch [OF h] a b show ?thesis by simp
qed

text \<open>
  Claim C3, for sizes that are not negative.  When the sizes are non-negative and sum to
  the length of the list, \<open>split_list\<close> returns one sub-list per size; sub-list
  \<open>i\<close> has exactly \<open>sizes[i]\<close> items, namely the items of the list from position
  \<open>block_offset sizes i\<close> on, in their order, and the next sub-list starts right where
  this one ends.  In particular \<open>split_list([a,b,c,d,e], [2,3]) = [[a,b],[c,d,e]]\<close>.
\<close>

theorem split_list_partition:
  assumes nn: "\<forall>s \<in> set sizes. 0 \<le> s" and len: "sum_list sizes = int (length x)"
  shows "(\<exists>r. split_list x sizes = Inr r
            \<and> length r = length sizes
            \<and> (\<forall>i < length sizes.
                  int (length (r ! i)) = sizes ! i
                  \<and> r ! i = take (nat (sizes ! i)) (drop (block_offset sizes i) x)
                  \<and> (\<forall>j < length (r ! i). r ! i ! j = x ! (block_offset sizes i + j)))
            \<and> (\<forall>i < length sizes. block_offset sizes (Suc i) = block_offset sizes i + length (r ! i)))
         \<and> split_list [a, b, c, d, e] [2, 3] = Inr [[a, b], [c, d, e]]"
proof -
  let ?r = "map (\<lambda>i. take (nat (sizes ! i)) (drop (block_offset sizes i) x)) [0..<length sizes]"
  have r: "split_list x sizes = Inr ?r" using nn len by (rule split_list_ok)
  have fits: "block_offset sizes i + nat (sizes ! i) \<le> length x" and nni: "0 \<le> sizes ! i"
    and step: "block_offset sizes (Suc i) = block_offset sizes i + nat (sizes ! i)"
    if "i < length sizes" for i
  proof -
    show s: "0 \<le> sizes ! i" using nn that by simp
    have o: "0 \<le> sum_list (take i sizes)" using nn by (rule sum_list_take_nonneg)
    have "sum_list (take (Suc i) sizes) \<le> int (length x)"
      using sum_list_take_le [OF nn, of "Suc i"] len by simp
    then show "block_offset sizes i + nat (sizes ! i) \<le> length x"
      using that s o by (simp add: block_offset_def sum_list_take_Suc)
    show "block_offset sizes (Suc i) = block_offset sizes i + nat (sizes ! i)"
      using that s o by (simp add: block_offset_def sum_list_take_Suc nat_add_distrib)
  qed
  have size: "int (length (?r ! i)) = sizes ! i" if "i < length sizes" for i
    using fits [OF that] nni [OF that] that by simp
  have elem: "?r ! i ! j = x ! (block_offset sizes i + j)"
    if "i < length sizes" "j < length (?r ! i)" for i j
    using that fits [OF that(1)] by simp
  have nxt: "block_offset sizes (Suc i) = block_offset sizes i + length (?r ! i)"
    if "i < length sizes" for i
    using step [OF that] fits [OF that] that by simp
  have gen: "\<exists>r. split_list x sizes = Inr r
            \<and> length r = length sizes
            \<and> (\<forall>i < length sizes.
                  int (length (r ! i)) = sizes ! i
                  \<and> r ! i = take (nat (sizes ! i)) (drop (block_offset sizes i) x)
                  \<and> (\<forall>j < length (r ! i). r ! i ! j = x ! (block_offset sizes i + j)))
            \<and> (\<forall>i < length sizes. block_offset sizes (Suc i) = block_offset sizes i + length (r ! i))"
  proof (intro exI conjI allI impI)
    show "split_list x sizes = Inr ?r" by (rule r)
    show "length ?r = length sizes" by simp
    show "int (length (?r ! i)) = sizes ! i" if "i < length sizes" for i by (rule size [OF that])
    show "?r ! i = take (nat (sizes ! i)) (drop (block_offset sizes i) x)" if "i < length sizes" for i
      using that by simp
    show "?r ! i ! j = x ! (block_offset sizes i + j)" if "i < length sizes" "j < length (?r ! i)" for i j
      by (rule elem [OF that])
    show "block_offset sizes (Suc i) = block_offset sizes i + length (?r ! i)" if "i < length sizes" for i
      by (rule nxt [OF that])
  qed
  have ex: "split_list [a, b, c, d, e] [2, 3] = Inr [[a, b], [c, d, e]]"
    by (simp add: split_list_def cumsum_def py_slice_def adjust_index_def)
  from gen ex show ?thesis by (rule conjI)
qed

theorem split_list_partition_witness:
  "(0 :: int) \<le> 2 \<and> (0 :: int) \<le> 3 \<and> sum_list [2, 3] = int (length ''abcde'')
   \<and> split_list ''abcde'' [2, 3] = Inr [''ab'', ''cde'']"
proof -
  have nn: "\<forall>s \<in> set [2, 3 :: int]. 0 \<le> s" by simp
  have len: "sum_list [2, 3] = int (length ''abcde'')" by simp
  from split_list_partition [OF nn len, of "CHR ''a''" "CHR ''b''" "CHR ''c''" "CHR ''d''" "CHR ''e''"]
  show ?thesis using nn len by simp
qed

text \<open>
  Claim C3 as stated covers every list of sizes that sums to the length of the list.  The
  source accepts negative sizes: \<open>split_list([10, 20], [3, -1])\<close> passes the length
  check (\<open>3 - 1 = 2\<close>), the boundaries are \<open>[0, 3, 2]\<close>, and the slices
  \<open>x[0:3]\<close> and \<open>x[3:2]\<close> have 2 and 0 items, not 3 and -1.
\<close>

theorem split_list_negative_size_counterexample:
  "sum_list [3, - 1] = int (length [10 :: nat, 20])
   \<and> split_list [10 :: nat, 20] [3, - 1] = Inr [[10, 20], []]
   \<and> int (length ([[10 :: nat, 20], []] ! 0)) \<noteq> [3, - 1] ! 0
   \<and> int (length ([[10 :: nat, 20], []] ! 1)) \<noteq> [3, - 1] ! 1"
  by (simp add: split_list_def cumsum_def py_slice_def adjust_index_def)

text \<open>
  Claim C10.  When the sizes are non-negative and sum to the length of the list, the
  sub-lists returned by \<open>split_list\<close> concatenate to the list, there are as many
  sub-lists as sizes, and a size of 0 gives an empty sub-list; splitting the empty list
  into no blocks gives no sub-lists.
\<close>

theorem split_list_concat:
  assumes nn: "\<forall>s \<in> set sizes. 0 \<le> s" and len: "sum_list sizes = int (length x)"
  shows "(\<exists>r. split_list x sizes = Inr r
            \<and> concat r = x
            \<and> length r = length sizes
            \<and> (\<forall>i < length sizes. sizes ! i = 0 \<longrightarrow> r ! i = []))
         \<and> split_list ([] :: 'a list) [] = Inr []"
proof -
  let ?r = "map (\<lambda>i. take (nat (sizes ! i)) (drop (block_offset sizes i) x)) [0..<length sizes]"
  have r: "split_list x sizes = Inr ?r" using nn len by (rule split_list_ok)
  have "concat ?r = take (block_offset sizes (length sizes)) x"
    using nn by (rule concat_blocks) simp
  then have c: "concat ?r = x" using len by (simp add: block_offset_def)
  have z: "\<forall>i < length sizes. sizes ! i = 0 \<longrightarrow> ?r ! i = []" by simp
  have e: "split_list ([] :: 'a list) [] = Inr []" by (simp add: split_list_def)
  from r c z e show ?thesis by simp
qed

theorem split_list_concat_witness:
  "(0 :: int) \<le> 2 \<and> (0 :: int) \<le> 0 \<and> (0 :: int) \<le> 1 \<and> sum_list [2, 0, 1] = int (length ''abc'')
   \<and> split_list ''abc'' [2, 0, 1] = Inr [''ab'', [], ''c'']
   \<and> concat [''ab'', [], ''c''] = ''abc''"
proof -
  have nn: "\<forall>s \<in> set [2, 0, 1 :: int]. 0 \<le> s" by simp
  have len: "sum_list [2, 0, 1] = int (length ''abc'')" by simp
  have v: "split_list ''abc'' [2, 0, 1] = Inr [''ab'', [], ''c'']"
    by (simp add: split_list_def cumsum_def py_slice_def adjust_index_def)
  from split_list_concat [OF nn len] v show ?thesis using nn len by simp
qed

section \<open>Properties of \<open>allclose_report\<close>\<close>

lemma indices_length: "idx \<in> set (indices s) \<Longrightarrow> length idx = length s"
  by (induction s arbitrary: idx) auto

lemma indices_bound: "idx \<in> set (indices s) \<Longrightarrow> k < length s \<Longrightarrow> idx ! k < s ! k"
proof (induction s arbitrary: idx k)
  case Nil
  then show ?case by simp
next
  case (Cons d ds)
  from Cons.prems(1) obtain i r where ir: "idx = i # r" "i < d" "r \<in> set (indices ds)"
    by auto
  show ?case
  proof (cases k)
    case 0
    with ir show ?thesis by simp
  next
    case (Suc j)
    with Cons.prems(2) have "j < length ds" by simp
    from Cons.IH [OF ir(3) this] ir Suc show ?thesis by simp
  qed
qed

lemma broadcast_index_same:
  assumes "idx \<in> set (indices s)"
  shows "broadcast_index s idx = idx"
proof -
  have len: "length idx = length s" using assms by (rule indices_length)
  have "map (\<lambda>(d, i). if d = 1 then 0 else i) (zip s idx) = idx"
  proof (rule nth_equalityI)
    show "length (map (\<lambda>(d, i). if d = 1 then 0 else i) (zip s idx)) = length idx"
      using len by simp
  next
    fix k assume "k < length (map (\<lambda>(d, i). if d = 1 then 0 else i) (zip s idx))"
    then have k: "k < length s" using len by simp
    from indices_bound [OF assms k] show "map (\<lambda>(d, i). if d = 1 then 0 else i) (zip s idx) ! k = idx ! k"
      using k len by auto
  qed
  then show ?thesis using len by (simp add: broadcast_index_def)
qed

lemma concat_shifted_upt:
  "concat (map (\<lambda>i. map (\<lambda>k. i * p + k) [0..<p]) [0..<d]) = [0..<d * p]"
proof (induction d)
  case 0
  then show ?case by simp
next
  case (Suc d)
  have "map (\<lambda>k. d * p + k) [0..<p] = map (\<lambda>k. k + d * p) [0..<p]"
    by (rule map_cong) simp_all
  also have "\<dots> = [d * p..<p + d * p]"
    by (rule map_add_upt)
  finally have blk: "map (\<lambda>k. d * p + k) [0..<p] = [d * p..<d * p + p]"
    by (simp only: add.commute [of p])
  have "[0..<d * p + p] = [0..<d * p] @ [d * p..<d * p + p]"
    by (rule upt_add_eq_append) simp
  then have "[0..<Suc d * p] = [0..<d * p] @ [d * p..<d * p + p]"
    by (simp only: mult_Suc add.commute [of p])
  moreover have "concat (map (\<lambda>i. map (\<lambda>k. i * p + k) [0..<p]) [0..<Suc d])
        = concat (map (\<lambda>i. map (\<lambda>k. i * p + k) [0..<p]) [0..<d]) @ map (\<lambda>k. d * p + k) [0..<p]"
    by simp
  ultimately show ?case using Suc.IH blk by (simp only:)
qed

lemma ravel_indices: "map (ravel s) (indices s) = [0..<prod_list s]"
proof (induction s)
  case Nil
  then show ?case by simp
next
  case (Cons d ds)
  have "map (ravel (d # ds)) (indices (d # ds))
        = concat (map (\<lambda>i. map (\<lambda>k. i * prod_list ds + k) (map (ravel ds) (indices ds))) [0..<d])"
    by (simp add: map_concat comp_def)
  also have "\<dots> = [0..<d * prod_list ds]"
    unfolding Cons.IH by (rule concat_shifted_upt)
  finally show ?case by simp
qed

lemma length_indices: "length (indices s) = prod_list s"
  using arg_cong [OF ravel_indices, of length s] by simp

lemma broadcast_rev_same: "broadcast_rev s s = Some s"
  by (induction s) simp_all

lemma broadcast_shapes_same: "broadcast_shapes s s = Some s"
  by (simp add: broadcast_shapes_def broadcast_rev_same)

lemma broadcast_get_indices:
  assumes "wf_tensor t"
  shows "map (broadcast_get t) (indices (shape t)) = entries t"
proof -
  have "map (broadcast_get t) (indices (shape t))
        = map (\<lambda>idx. entries t ! ravel (shape t) idx) (indices (shape t))"
    by (rule map_cong) (simp_all add: broadcast_get_def broadcast_index_same)
  also have "\<dots> = map ((!) (entries t)) (map (ravel (shape t)) (indices (shape t)))"
    by (simp add: comp_def)
  also have "\<dots> = map ((!) (entries t)) [0..<length (entries t)]"
    using assms by (simp add: ravel_indices wf_tensor_def)
  also have "\<dots> = entries t" by (rule map_nth)
  finally show ?thesis .
qed

lemma isclose_same_shape:
  assumes "wf_tensor t1" "wf_tensor t2" "shape t1 = shape t2"
  shows "isclose cl t1 t2 = Inr \<lparr>shape = shape t1, entries = map2 cl (entries t1) (entries t2)\<rparr>"
proof -
  have "map (\<lambda>idx. cl (broadcast_get t1 idx) (broadcast_get t2 idx)) (indices (shape t1))
        = map2 cl (map (broadcast_get t1) (indices (shape t1))) (map (broadcast_get t2) (indices (shape t1)))"
    by (simp add: zip_map_map comp_def zip_same_conv_map)
  also have "\<dots> = map2 cl (entries t1) (entries t2)"
    using assms broadcast_get_indices [of t1] broadcast_get_indices [of t2] by simp
  finally show ?thesis
    using assms by (simp add: isclose_def broadcast_shapes_same)
qed


lemma zip_as_map_upt:
  assumes "length xs = length ms"
  shows "zip xs ms = map (\<lambda>k. (xs ! k, ms ! k)) [0..<length ms]"
  using assms by (intro nth_equalityI) simp_all

lemma selected_by_mask:
  assumes "length xs = length ms"
  shows "map fst (filter snd (zip xs ms)) = map ((!) xs) (filter ((!) ms) [0..<length ms])"
  unfolding zip_as_map_upt [OF assms] by (simp add: filter_map comp_def)

text \<open>
  On two well-formed tensors of the same shape \<open>allclose_report\<close> raises nothing.
  It returns whether every pair of entries is close, and it prints one line for every
  position at which the entries are not close, in row-major order, with the two entries
  at that position and their ratio; it prints nothing when the tensors are close.
\<close>

lemma allclose_report_same_shape:
  assumes wf1: "wf_tensor t1" and wf2: "wf_tensor t2" and sh: "shape t1 = shape t2"
  shows "allclose_report close_entry quot t1 t2 rtol atol =
     Inr (map (\<lambda>k. \<lparr>index = indices (shape t1) ! k,
                     entry1 = entries t1 ! k, entry2 = entries t2 ! k,
                     ratio = quot (entries t1 ! k) (entries t2 ! k)\<rparr>)
            (filter (\<lambda>k. \<not> close_entry rtol atol (entries t1 ! k) (entries t2 ! k))
               [0..<length (entries t1)]),
          \<forall>k < length (entries t1). close_entry rtol atol (entries t1 ! k) (entries t2 ! k))"
proof -
  let ?cl = "close_entry rtol atol"
  let ?n = "length (entries t1)"
  let ?m = "map2 ?cl (entries t1) (entries t2)"
  let ?nm = "map Not ?m"
  let ?pos = "filter (\<lambda>k. \<not> ?cl (entries t1 ! k) (entries t2 ! k)) [0..<?n]"
  have len2: "length (entries t2) = ?n" using wf1 wf2 sh by (simp add: wf_tensor_def)
  have leni: "length (indices (shape t1)) = ?n" using wf1 by (simp add: length_indices wf_tensor_def)
  have lenm: "length ?nm = ?n" using len2 by simp
  have m: "isclose ?cl t1 t2 = Inr \<lparr>shape = shape t1, entries = ?m\<rparr>"
    using wf1 wf2 sh by (rule isclose_same_shape)
  have all: "list_all (\<lambda>b. b) ?m = (\<forall>k < ?n. ?cl (entries t1 ! k) (entries t2 ! k))"
    using len2 by (simp add: list_all_length)
  have pos: "filter ((!) ?nm) [0..<?n] = ?pos"
    by (rule filter_cong) (simp_all add: len2)
  have sel: "map fst (filter snd (zip xs ?nm)) = map ((!) xs) ?pos" if "length xs = ?n" for xs :: "'c list"
    using selected_by_mask [of xs ?nm] that lenm pos by simp
  have v1: "mask_select t1 (logical_not \<lparr>shape = shape t1, entries = ?m\<rparr>) = Inr (map ((!) (entries t1)) ?pos)"
    using sel [of "entries t1"] by (simp add: mask_select_def logical_not_def)
  have v2: "mask_select t2 (logical_not \<lparr>shape = shape t1, entries = ?m\<rparr>) = Inr (map ((!) (entries t2)) ?pos)"
    using sel [of "entries t2"] len2 sh by (simp add: mask_select_def logical_not_def)
  have aw: "argwhere (logical_not \<lparr>shape = shape t1, entries = ?m\<rparr>) = map ((!) (indices (shape t1))) ?pos"
    using sel [of "indices (shape t1)"] leni by (simp add: argwhere_def logical_not_def)
  have lines: "map (\<lambda>(idx, a, b). \<lparr>index = idx, entry1 = a, entry2 = b, ratio = quot a b\<rparr>)
                 (zip (map ((!) (indices (shape t1))) ?pos)
                    (zip (map ((!) (entries t1)) ?pos) (map ((!) (entries t2)) ?pos)))
               = map (\<lambda>k. \<lparr>index = indices (shape t1) ! k,
                     entry1 = entries t1 ! k, entry2 = entries t2 ! k,
                     ratio = quot (entries t1 ! k) (entries t2 ! k)\<rparr>) ?pos"
    by (simp add: zip_map_map zip_same_conv_map comp_def)
  show ?thesis
  proof (cases "\<forall>k < ?n. ?cl (entries t1 ! k) (entries t2 ! k)")
    case True
    then have "?pos = []" by (simp add: filter_empty_conv)
    with True show ?thesis by (simp add: allclose_report_def allclose_def m all)
  next
    case False
    then show ?thesis
      by (simp add: allclose_report_def allclose_def m all v1 v2 aw lines Let_def del: map_map)
  qed
qed

lemma index_of_position:
  assumes "k < prod_list s"
  shows "ravel s (indices s ! k) = k"
proof -
  have "map (ravel s) (indices s) ! k = [0..<prod_list s] ! k" by (simp only: ravel_indices)
  then show ?thesis using assms by (simp add: length_indices)
qed

text \<open>
  An instance: the matrices \<open>[[1, 6], [3, 8]]\<close> and \<open>[[1, 2], [3, 4]]\<close> differ at
  the indices \<open>[0, 1]\<close> and \<open>[1, 1]\<close>, with the ratios 3 and 2.
\<close>

lemma allclose_report_example:
  "allclose_report close_exact (/)
     \<lparr>shape = [2, 2], entries = [1, 6, 3, 8]\<rparr> \<lparr>shape = [2, 2], entries = [1, 2, 3, 4]\<rparr> 0 0
   = Inr ([\<lparr>index = [0, 1], entry1 = 6, entry2 = 2, ratio = 3\<rparr>,
           \<lparr>index = [1, 1], entry1 = 8, entry2 = 4, ratio = 2\<rparr>], False)"
  by (simp add: allclose_report_def allclose_def isclose_def broadcast_shapes_def logical_not_def
      mask_select_def argwhere_def broadcast_get_def broadcast_index_def close_exact_def upt_rec)

text \<open>
  Tensors of different shapes that broadcast to close values are accepted as close.
\<close>

lemma allclose_report_broadcast_close:
  "allclose_report close_exact (/) \<lparr>shape = [2], entries = [1, 1]\<rparr> \<lparr>shape = [], entries = [1]\<rparr> 0 0
     = Inr ([], True)"
  by (simp add: allclose_report_def allclose_def isclose_def broadcast_shapes_def
      broadcast_get_def broadcast_index_def close_exact_def upt_rec)

text \<open>
  Claim C8.  \<open>allclose_report\<close> does not return \<open>False\<close> for every pair of tensors
  that are not close.  \<open>allclose\<close> and \<open>isclose\<close> broadcast their arguments, the
  mask \<open>nonclose_idx\<close> has the broadcast shape, and indexing a tensor of another shape
  with it raises \<open>IndexError\<close>: comparing the tensor \<open>[1, 2]\<close> with the scalar tensor
  \<open>1\<close>, or the tensor \<open>[1]\<close> with the tensor \<open>[1, 2]\<close>, at tolerances 0, prints
  nothing and returns nothing.
\<close>

theorem allclose_report_broadcast_raises:
  "allclose_report close_exact (/) \<lparr>shape = [2], entries = [1, 2]\<rparr> \<lparr>shape = [], entries = [1]\<rparr> 0 0
     = Inl IndexError
   \<and> allclose_report close_exact (/) \<lparr>shape = [1], entries = [1]\<rparr> \<lparr>shape = [2], entries = [1, 2]\<rparr> 0 0
     = Inl IndexError
   \<and> allclose (close_exact 0 0) \<lparr>shape = [2], entries = [1, 2]\<rparr> \<lparr>shape = [], entries = [1]\<rparr>
     = Inr False"
  by (simp add: allclose_report_def allclose_def isclose_def broadcast_shapes_def logical_not_def
      mask_select_def broadcast_get_def broadcast_index_def close_exact_def upt_rec)

section \<open>Properties of the implicit linear operator\<close>

lemma resolve_all_default_mapping:
  assumes "\<exists>b \<in> set data. mapping_like (fst b)"
  shows "resolve_all default_resolver data = Inl ConfigurationError"
  using assms
proof (induction data)
  case Nil
  then show ?case by simp
next
  case (Cons b bs)
  obtain x y where b: "b = (x, y)" by (cases b)
  show ?case
  proof (cases x)
    case (ArrayLike n)
    with Cons.prems b have "\<exists>b \<in> set bs. mapping_like (fst b)"
      by (simp add: mapping_like_def)
    with Cons.IH have "resolve_all default_resolver bs = Inl ConfigurationError" by simp
    with ArrayLike b show ?thesis by simp
  next
    case (MappingLike d)
    with b show ?thesis by simp
  qed
qed

lemma resolve_all_supplied: "resolve_all (\<lambda>b. Inr (f b)) data = Inr (map f data)"
  by (induction data) simp_all

lemma flat_dim_append: "flat_dim (ps @ qs) = flat_dim ps + flat_dim qs"
  by (simp add: flat_dim_def)

lemma flat_dim_concat: "flat_dim (concat pss) = sum_list (map flat_dim pss)"
  by (induction pss) (simp_all add: flat_dim_append, simp add: flat_dim_def)

lemma blocks_partition:
  assumes nn: "\<forall>s \<in> set sizes. 0 \<le> s" and len: "sum_list sizes = int (length ps)"
  shows "\<exists>pblocks. split_list ps sizes = Inr pblocks \<and> concat pblocks = ps"
proof -
  let ?r = "map (\<lambda>i. take (nat (sizes ! i)) (drop (block_offset sizes i) ps)) [0..<length sizes]"
  have r: "split_list ps sizes = Inr ?r" using nn len by (rule split_list_ok)
  have "concat ?r = take (block_offset sizes (length sizes)) ps"
    using nn by (rule concat_blocks) simp
  then have "concat ?r = ps" using len by (simp add: block_offset_def)
  with r show ?thesis by blast
qed


lemma matvec_succeeds:
  assumes ok: "blocks_ok (op_params op) (op_blocks op)" and v: "length v = flat_dim (op_params op)"
  shows "\<exists>r. matvec op v = Inr r"
proof (cases "op_blocks op")
  case None
  with v show ?thesis by (simp add: matvec_def)
next
  case (Some sizes)
  with ok have nn: "\<forall>s \<in> set sizes. 0 \<le> s" and len: "sum_list sizes = int (length (op_params op))"
    by (simp_all add: blocks_ok_def list_all_iff)
  from blocks_partition [OF nn len] obtain pblocks
    where pb: "split_list (op_params op) sizes = Inr pblocks" "concat pblocks = op_params op"
    by blast
  have "sum_list (map (\<lambda>ps. int (flat_dim ps)) pblocks) = int (sum_list (map flat_dim pblocks))"
    by (induction pblocks) simp_all
  also have "\<dots> = int (length v)" using pb(2) v flat_dim_concat [of pblocks] by simp
  finally obtain vblocks where "split_list v (map (\<lambda>ps. int (flat_dim ps)) pblocks) = Inr vblocks"
    using split_list_succeeds by blast
  with Some pb(1) v show ?thesis by (simp add: matvec_def)
qed

lemma matmat_succeeds:
  assumes ok: "blocks_ok (op_params op) (op_blocks op)"
    and V: "\<forall>v \<in> set V. length v = flat_dim (op_params op)"
  shows "\<exists>R. matmat op V = Inr R"
  using V
proof (induction V)
  case Nil
  then show ?case by simp
next
  case (Cons v vs)
  then obtain rs where rs: "matmat op vs = Inr rs" by auto
  from Cons.prems have "length v = flat_dim (op_params op)" by simp
  from matvec_succeeds [OF ok this] obtain r where "matvec op v = Inr r" by blast
  with rs show ?case by simp
qed

lemma flat_dim_take_drop: "flat_dim (take n ps) + flat_dim (drop n ps) = flat_dim ps"
  using flat_dim_append [of "take n ps" "drop n ps"] by simp

lemma construct_fields:
  assumes "construct kern params data bsf blocks = Inr op"
  shows "op_kernel op = kern \<and> op_params op = params \<and> op_data op = data \<and> op_blocks op = blocks"
  using assms by (auto simp: construct_def split: sum.splits)

lemma matvec_two_blocks:
  fixes op :: "('a :: {zero, plus}, 'd, 'y) operator"
  assumes k: "0 \<le> k" "k \<le> int (length params)"
    and op: "construct kern params data bsf (Some [k, int (length params) - k]) = Inr op"
    and op1: "construct kern (take (nat k) params) data bsf None = Inr op1"
    and op2: "construct kern (drop (nat k) params) data bsf None = Inr op2"
    and v: "length v = flat_dim params"
  shows "\<exists>r1 r2. matvec op1 (take (flat_dim (take (nat k) params)) v) = Inr r1
            \<and> matvec op2 (drop (flat_dim (take (nat k) params)) v) = Inr r2
            \<and> matvec op v = Inr (r1 @ r2)"
proof -
  let ?p1 = "take (nat k) params" and ?p2 = "drop (nat k) params"
  let ?d1 = "flat_dim ?p1" and ?d2 = "flat_dim ?p2"
  let ?r1 = "accumulate kern ?p1 data (take ?d1 v)"
  let ?r2 = "accumulate kern ?p2 data (drop ?d1 v)"
  have dims: "?d1 + ?d2 = length v" using v by (simp add: flat_dim_take_drop)
  have f: "op_kernel op = kern" "op_params op = params" "op_data op = data"
          "op_blocks op = Some [k, int (length params) - k]"
    using construct_fields [OF op] by simp_all
  have f1: "op_kernel op1 = kern" "op_params op1 = ?p1" "op_data op1 = data" "op_blocks op1 = None"
    using construct_fields [OF op1] by simp_all
  have f2: "op_kernel op2 = kern" "op_params op2 = ?p2" "op_data op2 = data" "op_blocks op2 = None"
    using construct_fields [OF op2] by simp_all
  have pb: "split_list params [k, int (length params) - k] = Inr [?p1, ?p2]"
    using k by (intro split_list_two) simp_all
  have vb: "split_list v [int ?d1, int ?d2] = Inr [take ?d1 v, drop ?d1 v]"
    using split_list_two [of "int ?d1" "int ?d2" v] dims by simp
  have m1: "matvec op1 (take ?d1 v) = Inr ?r1"
    using dims by (simp add: matvec_def f1)
  have m2: "matvec op2 (drop ?d1 v) = Inr ?r2"
    using dims by (simp add: matvec_def f2)
  have m: "matvec op v = Inr (?r1 @ ?r2)"
    using v by (simp add: matvec_def f pb vb)
  from m1 m2 m show ?thesis by blast
qed

lemma matmat_two_blocks:
  fixes op :: "('a :: {zero, plus}, 'd, 'y) operator"
  assumes k: "0 \<le> k" "k \<le> int (length params)"
    and op: "construct kern params data bsf (Some [k, int (length params) - k]) = Inr op"
    and op1: "construct kern (take (nat k) params) data bsf None = Inr op1"
    and op2: "construct kern (drop (nat k) params) data bsf None = Inr op2"
    and V: "\<forall>v \<in> set V. length v = flat_dim params"
  shows "\<exists>R1 R2. matmat op1 (map (take (flat_dim (take (nat k) params))) V) = Inr R1
            \<and> matmat op2 (map (drop (flat_dim (take (nat k) params))) V) = Inr R2
            \<and> matmat op V = Inr (map2 (@) R1 R2)
            \<and> length R1 = length V \<and> length R2 = length V"
  using V
proof (induction V)
  case Nil
  then show ?case by simp
next
  case (Cons v vs)
  then obtain R1 R2 where R:
    "matmat op1 (map (take (flat_dim (take (nat k) params))) vs) = Inr R1"
    "matmat op2 (map (drop (flat_dim (take (nat k) params))) vs) = Inr R2"
    "matmat op vs = Inr (map2 (@) R1 R2)" "length R1 = length vs" "length R2 = length vs"
    by auto
  from Cons.prems have "length v = flat_dim params" by simp
  from matvec_two_blocks [OF k op op1 op2 this] obtain r1 r2 where r:
    "matvec op1 (take (flat_dim (take (nat k) params)) v) = Inr r1"
    "matvec op2 (drop (flat_dim (take (nat k) params)) v) = Inr r2"
    "matvec op v = Inr (r1 @ r2)"
    by blast
  show ?case
  proof (intro exI conjI)
    show "matmat op1 (map (take (flat_dim (take (nat k) params))) (v # vs)) = Inr (r1 # R1)"
      using r(1) R(1) by simp
    show "matmat op2 (map (drop (flat_dim (take (nat k) params))) (v # vs)) = Inr (r2 # R2)"
      using r(2) R(2) by simp
    show "matmat op (v # vs) = Inr (map2 (@) (r1 # R1) (r2 # R2))"
      using r(3) R(3) by simp
    show "length (r1 # R1) = length (v # vs)" using R(4) by simp
    show "length (r2 # R2) = length (v # vs)" using R(5) by simp
  qed
qed

section \<open>Claims about the implicit linear operator\<close>

text \<open>
  Claim C1.  When some batch of the data stream has a mapping-like input (in particular
  when the stream is not empty and all its batches have one), constructing the operator
  without a batch-size resolver fails with \<open>ConfigurationError\<close>.  With a resolver
  supplied, construction succeeds, and \<open>matvec\<close> and \<open>matmat\<close> succeed on every
  vector, and on every matrix whose columns are vectors, of the operator's input
  dimension.  The block sizes are admissible ones.
\<close>

theorem resolver_guard:
  assumes mapping: "\<exists>b \<in> set data. mapping_like (fst b)"
    and ok: "blocks_ok params blocks"
  shows "construct kern params data None blocks = Inl ConfigurationError
       \<and> (\<exists>op. construct kern params data (Some f) blocks = Inr op
             \<and> (\<forall>v. length v = flat_dim params \<longrightarrow> (\<exists>r. matvec op v = Inr r))
             \<and> (\<forall>V. (\<forall>v \<in> set V. length v = flat_dim params) \<longrightarrow> (\<exists>R. matmat op V = Inr R)))"
proof -
  have part: "\<exists>pblocks. (case blocks of None \<Rightarrow> Inr [params] | Some sizes \<Rightarrow> split_list params sizes)
                = Inr pblocks"
  proof (cases blocks)
    case None
    then show ?thesis by simp
  next
    case (Some sizes)
    with ok have "sum_list sizes = int (length params)" by (simp add: blocks_ok_def)
    from split_list_succeeds [OF this] Some show ?thesis by simp
  qed
  then obtain pblocks
    where pb: "(case blocks of None \<Rightarrow> Inr [params] | Some sizes \<Rightarrow> split_list params sizes) = Inr pblocks"
    by blast
  have fail: "construct kern params data None blocks = Inl ConfigurationError"
    using resolve_all_default_mapping [OF mapping] pb
    by (simp add: construct_def resolver_of_def)
  let ?op = "\<lparr>op_kernel = kern, op_params = params, op_data = data,
               op_batch_sizes = map f data, op_blocks = blocks\<rparr>"
  have built: "construct kern params data (Some f) blocks = Inr ?op"
    using pb by (simp add: construct_def resolver_of_def resolve_all_supplied)
  have ok': "blocks_ok (op_params ?op) (op_blocks ?op)" using ok by simp
  have mv: "\<exists>r. matvec ?op v = Inr r" if "length v = flat_dim params" for v
    using matvec_succeeds [OF ok', of v] that by simp
  have mm: "\<exists>R. matmat ?op V = Inr R" if "\<forall>v \<in> set V. length v = flat_dim params" for V
    using matmat_succeeds [OF ok', of V] that by simp
  from fail built mv mm show ?thesis by blast
qed

theorem resolver_guard_witness:
  "mapping_like (fst (MappingLike ''x'', ()))
   \<and> blocks_ok example_params (Some [1, 1])
   \<and> construct example_kernel example_params [(MappingLike ''x'', ())] None (Some [1, 1])
       = Inl ConfigurationError
   \<and> (\<exists>op. construct example_kernel example_params [(MappingLike ''x'', ())] (Some (\<lambda>b. 1)) (Some [1, 1])
              = Inr op
          \<and> (\<exists>r. matvec op [1, 2, 3] = Inr r)
          \<and> (\<exists>R. matmat op [[1, 2, 3], [10, 20, 30]] = Inr R))"
proof -
  have m: "\<exists>b \<in> set [(MappingLike ''x'', ())]. mapping_like (fst b)"
    by (simp add: mapping_like_def)
  have ok: "blocks_ok example_params (Some [1, 1])"
    by (simp add: blocks_ok_def example_params_def)
  have d: "flat_dim example_params = 3"
    by (simp add: flat_dim_def example_params_def)
  from resolver_guard [OF m ok, of example_kernel "\<lambda>b. 1"] obtain op where
    f: "construct example_kernel example_params [(MappingLike ''x'', ())] None (Some [1, 1])
          = Inl ConfigurationError"
    and c: "construct example_kernel example_params [(MappingLike ''x'', ())] (Some (\<lambda>b. 1)) (Some [1, 1])
          = Inr op"
    and mv: "\<forall>v. length v = flat_dim example_params \<longrightarrow> (\<exists>r. matvec op v = Inr r)"
    and mm: "\<forall>V. (\<forall>v \<in> set V. length v = flat_dim example_params) \<longrightarrow> (\<exists>R. matmat op V = Inr R)"
    by blast
  from mv d have 1: "\<exists>r. matvec op [1, 2, 3] = Inr r" by simp
  from mm [THEN spec, of "[[1, 2, 3], [10, 20, 30]]"] d
  have 2: "\<exists>R. matmat op [[1, 2, 3], [10, 20, 30]] = Inr R" by (simp del: matmat.simps)
  from m ok f c 1 2 show ?thesis by (simp add: mapping_like_def)
qed

text \<open>
  Claim C5.  For block sizes \<open>[k, n - k]\<close> on \<open>n\<close> parameters, the blocked operator
  applied to a matrix gives, column by column, the result of the operator built on the
  first \<open>k\<close> parameters applied to the first \<open>d1\<close> coordinates of the column,
  followed by the result of the operator built on the remaining parameters applied to
  the remaining coordinates, where \<open>d1\<close> is the input dimension of the first block:
  the direct sum of the two per-block operators.  There are no cross-block terms: the
  first block of the result is what the first operator gives on the first block of the
  input and does not change with the second block of the input, and likewise for the
  second block.
\<close>

theorem block_diagonal_two_blocks:
  fixes op :: "('a :: {zero, plus}, 'd, 'y) operator"
  assumes k: "0 \<le> k" "k \<le> int (length params)"
    and op: "construct kern params data bsf (Some [k, int (length params) - k]) = Inr op"
    and op1: "construct kern (take (nat k) params) data bsf None = Inr op1"
    and op2: "construct kern (drop (nat k) params) data bsf None = Inr op2"
    and V: "\<forall>v \<in> set V. length v = flat_dim params"
    and d1: "d1 = flat_dim (take (nat k) params)"
  shows "(\<exists>R1 R2. matmat op1 (map (take d1) V) = Inr R1
            \<and> matmat op2 (map (drop d1) V) = Inr R2
            \<and> matmat op V = Inr (map2 (@) R1 R2)
            \<and> length R1 = length V \<and> length R2 = length V)
       \<and> (\<forall>v v'. length v = flat_dim params \<and> length v' = flat_dim params \<and> take d1 v = take d1 v'
             \<longrightarrow> (\<exists>r1 r2 r2'. matvec op v = Inr (r1 @ r2) \<and> matvec op v' = Inr (r1 @ r2')
                     \<and> matvec op1 (take d1 v) = Inr r1))
       \<and> (\<forall>v v'. length v = flat_dim params \<and> length v' = flat_dim params \<and> drop d1 v = drop d1 v'
             \<longrightarrow> (\<exists>r1 r1' r2. matvec op v = Inr (r1 @ r2) \<and> matvec op v' = Inr (r1' @ r2)
                     \<and> matvec op2 (drop d1 v) = Inr r2))"
proof (intro conjI allI impI)
  show "\<exists>R1 R2. matmat op1 (map (take d1) V) = Inr R1
            \<and> matmat op2 (map (drop d1) V) = Inr R2
            \<and> matmat op V = Inr (map2 (@) R1 R2)
            \<and> length R1 = length V \<and> length R2 = length V"
    unfolding d1 using k op op1 op2 V by (rule matmat_two_blocks)
next
  fix v v' :: "'a list"
  assume a: "length v = flat_dim params \<and> length v' = flat_dim params \<and> take d1 v = take d1 v'"
  from matvec_two_blocks [OF k op op1 op2, of v] a d1 obtain r1 r2 where
    r: "matvec op1 (take d1 v) = Inr r1" "matvec op v = Inr (r1 @ r2)" by auto
  from matvec_two_blocks [OF k op op1 op2, of v'] a d1 obtain s1 s2 where
    s: "matvec op1 (take d1 v') = Inr s1" "matvec op v' = Inr (s1 @ s2)" by auto
  from r(1) s(1) a have "s1 = r1" by simp
  with r s show "\<exists>r1 r2 r2'. matvec op v = Inr (r1 @ r2) \<and> matvec op v' = Inr (r1 @ r2')
                     \<and> matvec op1 (take d1 v) = Inr r1"
    by blast
next
  fix v v' :: "'a list"
  assume a: "length v = flat_dim params \<and> length v' = flat_dim params \<and> drop d1 v = drop d1 v'"
  from matvec_two_blocks [OF k op op1 op2, of v] a d1 obtain r1 r2 where
    r: "matvec op2 (drop d1 v) = Inr r2" "matvec op v = Inr (r1 @ r2)" by auto
  from matvec_two_blocks [OF k op op1 op2, of v'] a d1 obtain s1 s2 where
    s: "matvec op2 (drop d1 v') = Inr s2" "matvec op v' = Inr (s1 @ s2)" by auto
  from r(1) s(1) a have "s2 = r2" by simp
  with r s show "\<exists>r1 r1' r2. matvec op v = Inr (r1 @ r2) \<and> matvec op v' = Inr (r1' @ r2)
                     \<and> matvec op2 (drop d1 v) = Inr r2"
    by blast
qed

theorem block_diagonal_two_blocks_witness:
  "(0 :: int) \<le> 1 \<and> 1 \<le> int (length example_params)
   \<and> length [1 :: int, 2, 3] = flat_dim example_params
   \<and> (\<exists>op op1 op2.
         construct example_kernel example_params [(ArrayLike 4, ()), (ArrayLike 2, ())] None
           (Some [1, int (length example_params) - 1]) = Inr op
       \<and> construct example_kernel (take (nat 1) example_params) [(ArrayLike 4, ()), (ArrayLike 2, ())] None None
           = Inr op1
       \<and> construct example_kernel (drop (nat 1) example_params) [(ArrayLike 4, ()), (ArrayLike 2, ())] None None
           = Inr op2
       \<and> matmat op1 [[1]] = Inr [[2]]
       \<and> matmat op2 [[2, 3]] = Inr [[4, 6]]
       \<and> matmat op [[1, 2, 3]] = Inr [[2, 4, 6]])"
proof -
  let ?data = "[(ArrayLike 4, ()), (ArrayLike 2, ())] :: (string, unit) batch list"
  let ?op = "\<lparr>op_kernel = example_kernel, op_params = example_params, op_data = ?data,
               op_batch_sizes = [4, 2], op_blocks = Some [1, int (length example_params) - 1]\<rparr>"
  let ?op1 = "\<lparr>op_kernel = example_kernel, op_params = take (nat 1) example_params, op_data = ?data,
               op_batch_sizes = [4, 2], op_blocks = None\<rparr>"
  let ?op2 = "\<lparr>op_kernel = example_kernel, op_params = drop (nat 1) example_params, op_data = ?data,
               op_batch_sizes = [4, 2], op_blocks = None\<rparr>"
  have k: "(0 :: int) \<le> 1" "1 \<le> int (length example_params)"
    by (simp_all add: example_params_def)
  have c: "construct example_kernel example_params ?data None (Some [1, int (length example_params) - 1])
             = Inr ?op"
    by (simp add: construct_def resolver_of_def split_list_def example_params_def Let_def)
  have c1: "construct example_kernel (take (nat 1) example_params) ?data None None = Inr ?op1"
    by (simp add: construct_def resolver_of_def)
  have c2: "construct example_kernel (drop (nat 1) example_params) ?data None None = Inr ?op2"
    by (simp add: construct_def resolver_of_def)
  have d: "flat_dim example_params = 3" "flat_dim (take (nat 1) example_params) = 1"
    by (simp_all add: flat_dim_def example_params_def)
  have V: "\<forall>v \<in> set [[1 :: int, 2, 3]]. length v = flat_dim example_params"
    using d by simp
  have m1: "matmat ?op1 [[1]] = Inr [[2]]"
    by (simp add: matvec_def flat_dim_def example_params_def accumulate_def example_kernel_def)
  have m2: "matmat ?op2 [[2, 3]] = Inr [[4, 6]]"
    by (simp add: matvec_def flat_dim_def example_params_def accumulate_def example_kernel_def)
  from block_diagonal_two_blocks [OF k c c1 c2 V d(2) [symmetric]] obtain R1 R2 where
    R: "matmat ?op1 (map (take 1) [[1, 2, 3]]) = Inr R1"
       "matmat ?op2 (map (drop 1) [[1, 2, 3]]) = Inr R2"
       "matmat ?op [[1, 2, 3]] = Inr (map2 (@) R1 R2)"
    by blast
  from R(1) m1 have "R1 = [[2]]" by simp
  moreover from R(2) m2 have "R2 = [[4, 6]]" by simp
  ultimately have m: "matmat ?op [[1, 2, 3]] = Inr [[2, 4, 6]]" using R(3) by simp
  from k d(1) c c1 c2 m1 m2 m show ?thesis by (simp del: matmat.simps)
qed

end
